theory Spec2Isabelle
  imports Main "HOL-Library.AList" "HOL-Library.Multiset"
begin

section \<open>Strings\<close>

text \<open>
  A Python \<open>str\<close> is modelled as a \<open>string\<close> holding its UTF-8 encoding. The
  character classes below are Python's on the ASCII range: \<open>str.isspace\<close> (and the
  regular expression class \<open>\s\<close>) holds of TAB, LF, VT, FF, CR, the separators
  0x1C..0x1F and the space; \<open>str.lower\<close> maps \<open>A..Z\<close> to \<open>a..z\<close>. Bytes of a
  multi-byte sequence are neither whitespace nor letters in this model.
\<close>

definition isspace :: "char \<Rightarrow> bool" where
  "isspace c = (let n = (of_char c :: nat) in (9 \<le> n \<and> n \<le> 13) \<or> (28 \<le> n \<and> n \<le> 32))"

definition lower_char :: "char \<Rightarrow> char" where
  "lower_char c = (let n = (of_char c :: nat) in if 65 \<le> n \<and> n \<le> 90 then char_of (n + 32) else c)"

definition lower :: "string \<Rightarrow> string" where
  "lower s = map lower_char s"

definition rstrip :: "string \<Rightarrow> string" where
  "rstrip s = rev (dropWhile isspace (rev s))"

definition strip :: "string \<Rightarrow> string" where
  "strip s = rstrip (dropWhile isspace s)"

text \<open>
  \<open>re.sub(r"\s+", " ", s)\<close>: every maximal run of whitespace is replaced by one space.
\<close>

function sub_ws :: "string \<Rightarrow> string" where
  "sub_ws [] = []"
| "sub_ws (c # cs) =
     (if isspace c then CHR '' '' # sub_ws (dropWhile isspace cs) else c # sub_ws cs)"
  by pat_completeness auto
termination
  by (relation "measure length") (auto simp: length_dropWhile_le less_Suc_eq_le)

text \<open>
  \<open>agent.normalize_key\<close>:
  \<^verbatim>\<open>
  if not title: return ""
  s = title.strip().lower()
  s = re.sub(r"\s+", " ", s)
  return s
  \<close>
\<close>

definition normalize_key :: "string \<Rightarrow> string" where
  "normalize_key title = (if title = [] then [] else sub_ws (lower (strip title)))"

subsection \<open>The normalisation as the specification words it\<close>





section \<open>Data model (\<open>app/models.py\<close>)\<close>

text \<open>
  Each table is the list of its rows in row order; a primary or foreign key is an
  \<open>int\<close>, a nullable column an \<open>option\<close>, a JSON text column holding a dictionary an
  association list in insertion order (\<open>d[k] = v\<close> is \<open>AList.update k v d\<close>). The
  columns kept are the ones the operations below read or write.
\<close>

record user =
  user_id :: int
  email :: string

record project =
  project_id :: int
  project_user_id :: int
  custom_columns :: "string list"
  shared_with :: "int list"

record requirement =
  req_id :: int
  req_project_id :: int
  req_key :: "string option"
  is_deleted :: bool

record requirement_version =
  rv_id :: int
  requirement_id :: int
  version_index :: int
  rv_label :: string
  title :: string
  description :: string
  category :: "string option"
  status :: string
  custom_data :: "(string \<times> string) list"
  created_by_id :: "int option"
  last_modified_by_id :: "int option"
  is_blocked :: bool
  blocked_by_id :: "int option"
  blocked_at :: "nat option"

record history_entry =
  h_version_id :: int
  changed_by_id :: int
  change_type :: string
  changes :: "(string \<times> string) list"

record comment =
  comment_id :: int
  c_version_id :: int
  author_id :: int
  comment_text :: string
  parent_comment_id :: "int option"
  c_created_at :: nat
  c_is_deleted :: bool

record notification =
  n_user_id :: int
  notification_type :: string
  related_type :: string
  related_id :: int

record db =
  users :: "user list"
  projects :: "project list"
  requirements :: "requirement list"
  versions :: "requirement_version list"
  history :: "history_entry list"
  comments :: "comment list"
  notifications :: "notification list"

datatype error = NotFound | Forbidden | ValidationFailure | ValueError | IntegrityError | AttributeError

definition dict_get :: "(string \<times> string) list \<Rightarrow> string \<Rightarrow> string \<Rightarrow> string" where
  "dict_get d k dflt = (case map_of d k of None \<Rightarrow> dflt | Some v \<Rightarrow> v)"

text \<open>The id a flushed new row receives: one more than the largest id of the table.\<close>

definition next_id :: "int list \<Rightarrow> int" where
  "next_id ids = fold max ids 0 + 1"

text \<open>\<open>Project.is_accessible_by\<close> and the routes' \<open>check_project_access\<close>.\<close>

definition is_accessible_by :: "project \<Rightarrow> int \<Rightarrow> bool" where
  "is_accessible_by p uid = (project_user_id p = uid \<or> uid \<in> set (shared_with p))"

text \<open>
  The navigations \<open>requirement.project\<close> and \<open>version.requirement.project\<close>; a
  dangling foreign key makes the attribute access on \<open>None\<close> raise.
\<close>

definition requirement_project :: "db \<Rightarrow> requirement \<Rightarrow> error + project" where
  "requirement_project s r =
     (case find (\<lambda>p. project_id p = req_project_id r) (projects s) of
        None \<Rightarrow> Inl AttributeError
      | Some p \<Rightarrow> Inr p)"

definition version_requirement :: "db \<Rightarrow> requirement_version \<Rightarrow> error + requirement" where
  "version_requirement s v =
     (case find (\<lambda>r. req_id r = requirement_id v) (requirements s) of
        None \<Rightarrow> Inl AttributeError
      | Some r \<Rightarrow> Inr r)"

definition version_project :: "db \<Rightarrow> requirement_version \<Rightarrow> error + project" where
  "version_project s v =
     (case version_requirement s v of
        Inl e \<Rightarrow> Inl e
      | Inr r \<Rightarrow> requirement_project s r)"

text \<open>
  The relationship \<open>Requirement.versions\<close>, ordered by \<open>version_index\<close> ascending.
\<close>

definition req_versions :: "db \<Rightarrow> int \<Rightarrow> requirement_version list" where
  "req_versions s rid = sort_key version_index (filter (\<lambda>v. requirement_id v = rid) (versions s))"

section \<open>Version labels (\<open>models.version_label\<close>, \<open>agent.next_version_info\<close>)\<close>

text \<open>
  Python's \<open>chr\<close>, as the UTF-8 encoding of the code point; outside
  \<open>0..0x10FFFF\<close> it raises \<open>ValueError\<close>.
\<close>

definition py_chr :: "int \<Rightarrow> error + string" where
  "py_chr i =
     (if i < 0 \<or> 1114111 < i then Inl ValueError
      else let n = nat i in Inr
        (if n < 128 then [char_of n]
         else if n < 2048 then [char_of (192 + n div 64), char_of (128 + n mod 64)]
         else if n < 65536 then
           [char_of (224 + n div 4096), char_of (128 + (n div 64) mod 64), char_of (128 + n mod 64)]
         else
           [char_of (240 + n div 262144), char_of (128 + (n div 4096) mod 64),
            char_of (128 + (n div 64) mod 64), char_of (128 + n mod 64)]))"

text \<open>
  \<^verbatim>\<open>
  def version_label(n):
      if n <= 0: return ""
      return chr(ord('A') + (n - 1))
  \<close>
\<close>

definition version_label :: "int \<Rightarrow> error + string" where
  "version_label n = (if n \<le> 0 then Inr [] else py_chr (65 + (n - 1)))"

text \<open>
  \<open>next_version_info\<close>, on the loaded \<open>req.versions\<close>: index 1 for a requirement
  without versions, otherwise the index of the last version plus one.
\<close>

definition next_version_info :: "requirement_version list \<Rightarrow> error + (int \<times> string)" where
  "next_version_info vs =
     (if vs = [] then
        (case version_label 1 of Inl e \<Rightarrow> Inl e | Inr l \<Rightarrow> Inr (1, l))
      else
        let last_idx = version_index (last vs); new_idx = last_idx + 1
        in (case version_label new_idx of Inl e \<Rightarrow> Inl e | Inr l \<Rightarrow> Inr (new_idx, l)))"

text \<open>The alphabet the specification's labels are read from.\<close>

definition nth_letter :: "int \<Rightarrow> string" where
  "nth_letter n = [''ABCDEFGHIJKLMNOPQRSTUVWXYZ'' ! nat (n - 1)]"


section \<open>Creating versions\<close>

subsection \<open>AI generation: the loop body of \<open>agent.generate\<close>\<close>

text \<open>
  One element of \<open>requirements_data\<close>. \<open>item_id\<close> is the outcome of lines 296-304:
  \<open>Some r_id\<close> when \<open>item.get("id")\<close> is truthy and
  \<open>int(str(req_id_val).strip())\<close> returns \<open>r_id\<close>; \<open>None\<close> when the key is missing
  or falsy or \<open>int\<close> raises (the \<open>except\<close> branch leaves \<open>req = None\<close>).
  \<open>item_fields\<close> holds the string-valued keys, \<open>item_quantifiable\<close> the value of
  \<open>item.get("is_quantifiable", False)\<close>.
\<close>

datatype quantifiable = QBool bool | QStr string | QOther

record item =
  item_id :: "int option"
  item_fields :: "(string \<times> string) list"
  item_quantifiable :: quantifiable

text \<open>Lines 296-304: the requirement named by the id hint, if it is in the project.\<close>

definition lookup_by_id :: "int \<Rightarrow> int option \<Rightarrow> db \<Rightarrow> requirement option" where
  "lookup_by_id pid hint s =
     (case hint of
        None \<Rightarrow> None
      | Some r_id \<Rightarrow>
          (case find (\<lambda>r. req_id r = r_id) (requirements s) of
             None \<Rightarrow> None
           | Some req \<Rightarrow> if req_project_id req \<noteq> pid then None else Some req))"

text \<open>\<open>Requirement.query.filter_by(project_id=project_id, key=key).first()\<close>.\<close>

definition lookup_by_key :: "int \<Rightarrow> string \<Rightarrow> db \<Rightarrow> requirement option" where
  "lookup_by_key pid k s =
     find (\<lambda>r. req_project_id r = pid \<and> req_key r = Some k) (requirements s)"

definition quantifiable_text :: "quantifiable \<Rightarrow> string" where
  "quantifiable_text q =
     (case q of
        QBool b \<Rightarrow> (if b then ''true'' else ''false'')
      | QStr x \<Rightarrow> (if lower x \<in> set [''true'', ''1'', ''yes''] then ''true'' else ''false'')
      | QOther \<Rightarrow> ''false'')"

definition new_version ::
  "int \<Rightarrow> int \<Rightarrow> int \<Rightarrow> string \<Rightarrow> string \<Rightarrow> string \<Rightarrow> string option \<Rightarrow> string \<Rightarrow>
   (string \<times> string) list \<Rightarrow> int \<Rightarrow> requirement_version" where
  "new_version vid rid idx label t d c st cd uid =
     \<lparr>rv_id = vid, requirement_id = rid, version_index = idx, rv_label = label,
      title = t, description = d, category = c, status = st, custom_data = cd,
      created_by_id = Some uid, last_modified_by_id = None,
      is_blocked = False, blocked_by_id = None, blocked_at = None\<rparr>"

definition created_entry :: "int \<Rightarrow> int \<Rightarrow> string \<Rightarrow> string \<Rightarrow> history_entry" where
  "created_entry vid uid action label =
     \<lparr>h_version_id = vid, changed_by_id = uid, change_type = ''created'',
      changes = [(''action'', action), (''version'', label)]\<rparr>"

text \<open>
  \<open>db.session.add(new_version)\<close>, the flush that gives it its id, and the history entry
  of type \<open>created\<close>.
\<close>

definition add_version ::
  "int \<Rightarrow> int \<Rightarrow> string \<Rightarrow> string \<Rightarrow> string \<Rightarrow> string option \<Rightarrow> string \<Rightarrow>
   (string \<times> string) list \<Rightarrow> int \<Rightarrow> string \<Rightarrow> db \<Rightarrow> db" where
  "add_version rid idx label t d c st cd uid action s =
     (let vid = next_id (map rv_id (versions s))
      in s\<lparr>versions := versions s @ [new_version vid rid idx label t d c st cd uid],
           history := history s @ [created_entry vid uid action label]\<rparr>)"

definition generate_custom_data :: "string list \<Rightarrow> item \<Rightarrow> (string \<times> string) list" where
  "generate_custom_data cols it =
     AList.update ''is_quantifiable'' (quantifiable_text (item_quantifiable it))
       (fold (\<lambda>col cd. let v = dict_get (item_fields it) col [] in
                        if v \<noteq> [] then AList.update col v cd else cd) cols [])"

definition generate_item :: "int \<Rightarrow> int \<Rightarrow> string list \<Rightarrow> item \<Rightarrow> db \<Rightarrow> error + db" where
  "generate_item pid uid cols it s =
     (let t = strip (dict_get (item_fields it) ''title'' []) in
      if t = [] then Inr s
      else
        let d = strip (dict_get (item_fields it) ''description'' []);
            c = dict_get (item_fields it) ''category'' [];
            st0 = dict_get (item_fields it) ''status'' [];
            st = (if st0 = [] then ''Offen'' else st0);
            cd = generate_custom_data cols it
        in
        (case lookup_by_id pid (item_id it) s of
           Some req \<Rightarrow>
             (case next_version_info (req_versions s (req_id req)) of
                Inl e \<Rightarrow> Inl e
              | Inr (idx, label) \<Rightarrow>
                  Inr (add_version (req_id req) idx label t d (Some c) st cd uid ''Version erstellt'' s))
         | None \<Rightarrow>
             let k = normalize_key t in
             (case lookup_by_key pid k s of
                None \<Rightarrow>
                  let rid = next_id (map req_id (requirements s));
                      s1 = s\<lparr>requirements := requirements s @
                             [\<lparr>req_id = rid, req_project_id = pid, req_key = Some k,
                               is_deleted = False\<rparr>]\<rparr>
                  in (case version_label 1 of
                        Inl e \<Rightarrow> Inl e
                      | Inr label \<Rightarrow>
                          Inr (add_version rid 1 label t d (Some c) st cd uid ''Version erstellt'' s1))
              | Some req \<Rightarrow>
                  (case next_version_info (req_versions s (req_id req)) of
                     Inl e \<Rightarrow> Inl e
                   | Inr (idx, label) \<Rightarrow>
                       Inr (add_version (req_id req) idx label t d (Some c) st cd uid
                              ''Version erstellt'' s)))))"

subsection \<open>Excel import: the loop body of \<open>routes.import_excel\<close>\<close>

text \<open>
  A row is the list of its cells; a cell is \<open>None\<close> when it is empty or falsy and
  \<open>Some (str(cell))\<close> otherwise. The column indices come from the header row.
\<close>

definition cell_truthy :: "string option \<Rightarrow> bool" where
  "cell_truthy c = (case c of None \<Rightarrow> False | Some x \<Rightarrow> x \<noteq> [])"

definition cell_str :: "string option \<Rightarrow> string" where
  "cell_str c = (case c of None \<Rightarrow> ''None'' | Some x \<Rightarrow> x)"

definition opt_cell :: "string option list \<Rightarrow> nat option \<Rightarrow> string \<Rightarrow> string" where
  "opt_cell row idx dflt =
     (case idx of
        None \<Rightarrow> dflt
      | Some i \<Rightarrow> if i < length row \<and> cell_truthy (row ! i) then strip (cell_str (row ! i)) else dflt)"

definition import_custom_data :: "(string \<times> nat) list \<Rightarrow> string option list \<Rightarrow> (string \<times> string) list" where
  "import_custom_data col_indices row =
     fold (\<lambda>(col_name, col_idx) cd.
             if col_idx < length row \<and> cell_truthy (row ! col_idx)
             then AList.update col_name (strip (cell_str (row ! col_idx))) cd else cd)
       col_indices []"

definition import_row ::
  "int \<Rightarrow> int \<Rightarrow> nat \<Rightarrow> nat \<Rightarrow> nat option \<Rightarrow> nat option \<Rightarrow> (string \<times> nat) list \<Rightarrow>
   string option list \<Rightarrow> db \<Rightarrow> error + db" where
  "import_row pid uid title_idx description_idx category_idx status_idx col_indices row s =
     (if row = [] \<or> length row \<le> title_idx then Inr s
      else if \<not> cell_truthy (row ! title_idx) \<or> strip (cell_str (row ! title_idx)) = [] then Inr s
      else
        let t = strip (cell_str (row ! title_idx));
            d = opt_cell row (Some description_idx) []
        in
        if d = [] then Inr s
        else
          let c = opt_cell row category_idx [];
              st0 = opt_cell row status_idx ''Offen'';
              st = (if st0 \<notin> set [''Offen'', ''In Arbeit'', ''Fertig''] then ''Offen'' else st0);
              cd = import_custom_data col_indices row;
              k = normalize_key t
          in
          (case lookup_by_key pid k s of
             None \<Rightarrow>
               let rid = next_id (map req_id (requirements s));
                   s1 = s\<lparr>requirements := requirements s @
                          [\<lparr>req_id = rid, req_project_id = pid, req_key = Some k,
                            is_deleted = False\<rparr>]\<rparr>
               in Inr (add_version rid 1 ''A'' t d (Some c) st cd uid ''Version importiert (Excel)'' s1)
           | Some req \<Rightarrow>
               let vs = req_versions s (req_id req);
                   idx = (if vs = [] then 1 else version_index (last vs) + 1)
               in (case py_chr (65 + (idx - 1)) of
                     Inl e \<Rightarrow> Inl e
                   | Inr label \<Rightarrow>
                       Inr (add_version (req_id req) idx label t d (Some c) st cd uid
                              ''Version importiert (Excel)'' s))))"

subsection \<open>Regeneration of one requirement: \<open>routes.regenerate_requirement\<close>\<close>

text \<open>
  \<open>result\<close> is the dictionary the generation service returned. An exception is caught
  by the route, which then commits nothing.
\<close>

definition regenerate_custom_data ::
  "string list \<Rightarrow> (string \<times> string) list \<Rightarrow> requirement_version \<Rightarrow> (string \<times> string) list" where
  "regenerate_custom_data cols result latest =
     fold (\<lambda>col cd. let v = dict_get result col (dict_get (custom_data latest) col []) in
                     if v \<noteq> [] then AList.update col v cd else cd) cols []"

definition regenerate_requirement ::
  "int \<Rightarrow> int \<Rightarrow> (string \<times> string) list \<Rightarrow> db \<Rightarrow> error + db" where
  "regenerate_requirement rid uid result s =
     (case find (\<lambda>r. req_id r = rid) (requirements s) of
        None \<Rightarrow> Inl NotFound
      | Some req \<Rightarrow>
          (case requirement_project s req of
             Inl e \<Rightarrow> Inl e
           | Inr p \<Rightarrow>
               if \<not> is_accessible_by p uid then Inl Forbidden
               else if req_versions s rid = [] then Inr s
               else if result = [] then Inr s
               else
                 let latest = last (req_versions s rid);
                     next_index = version_index latest + 1
                 in (case py_chr (65 + (next_index - 1)) of
                       Inl e \<Rightarrow> Inl e
                     | Inr next_label \<Rightarrow>
                         Inr (add_version rid next_index next_label
                                (dict_get result ''title'' (title latest))
                                (dict_get result ''description'' (description latest))
                                (case map_of result ''category'' of
                                   None \<Rightarrow> category latest | Some c \<Rightarrow> Some c)
                                ''Offen''
                                (regenerate_custom_data (custom_columns p) result latest)
                                uid ''Version regeneriert (KI)'' s))))"

section \<open>Deleting a version: \<open>routes.delete_requirement_version\<close>\<close>

text \<open>
  \<^verbatim>\<open>
  version = RequirementVersion.query.get_or_404(version_id)
  req = version.requirement
  check_requirement_access(req)
  remaining_versions = RequirementVersion.query.filter_by(requirement_id=req.id).count()
  if remaining_versions == 1:
      req.is_deleted = True
  else:
      db.session.delete(version)
  db.session.commit()
  \<close>
  Deleting the row cascades to its history entries (\<open>cascade="all, delete-orphan"\<close> on
  \<open>change_history\<close>). The \<open>comments\<close> backref has no delete cascade, so the unit of work
  sets \<open>version_id\<close> of the version's comments to NULL, which the column's
  \<open>nullable=False\<close> rejects: the commit raises and nothing is written.
\<close>

definition delete_requirement_version :: "int \<Rightarrow> int \<Rightarrow> db \<Rightarrow> error + db" where
  "delete_requirement_version version_id uid s =
     (case find (\<lambda>v. rv_id v = version_id) (versions s) of
        None \<Rightarrow> Inl NotFound
      | Some version \<Rightarrow>
          (case version_requirement s version of
             Inl e \<Rightarrow> Inl e
           | Inr req \<Rightarrow>
               (case requirement_project s req of
                  Inl e \<Rightarrow> Inl e
                | Inr p \<Rightarrow>
                    if \<not> is_accessible_by p uid then Inl Forbidden
                    else
                      let remaining_versions =
                            length (filter (\<lambda>v. requirement_id v = req_id req) (versions s))
                      in
                      if remaining_versions = 1 then
                        Inr (s\<lparr>requirements :=
                                 map (\<lambda>r. if req_id r = req_id req then r\<lparr>is_deleted := True\<rparr> else r)
                                   (requirements s)\<rparr>)
                      else if filter (\<lambda>c. c_version_id c = version_id) (comments s) \<noteq> [] then
                        Inl IntegrityError
                      else
                        Inr (s\<lparr>versions := filter (\<lambda>v. rv_id v \<noteq> version_id) (versions s),
                               history := filter (\<lambda>h. h_version_id h \<noteq> version_id) (history s)\<rparr>))))"

section \<open>Blocking (\<open>RequirementVersion.can_be_edited_by\<close>, \<open>can_be_blocked_by\<close>, \<open>routes.toggle_block_requirement\<close>)\<close>

text \<open>
  The two methods read \<open>self.requirement.project\<close>; the model passes that project.
\<close>

definition can_be_edited_by :: "project \<Rightarrow> requirement_version \<Rightarrow> int \<Rightarrow> bool" where
  "can_be_edited_by p v uid =
     (if \<not> is_blocked v then True
      else blocked_by_id v = Some uid \<or> project_user_id p = uid)"

definition can_be_blocked_by :: "project \<Rightarrow> requirement_version \<Rightarrow> int \<Rightarrow> bool" where
  "can_be_blocked_by p v uid =
     (if project_user_id p = uid then True
      else if \<not> is_blocked v then is_accessible_by p uid
      else blocked_by_id v = Some uid)"

text \<open>
  \<^verbatim>\<open>
  version = RequirementVersion.query.get_or_404(version_id)
  project = version.requirement.project
  # Authorization check - only project owner can block
  if project.user_id != current_user.id:
      abort(403)
  if version.is_blocked: (unblock) else: (block, by current_user, at utcnow())
  \<close>
\<close>

definition toggle_version :: "int \<Rightarrow> nat \<Rightarrow> requirement_version \<Rightarrow> requirement_version" where
  "toggle_version uid now v =
     (if is_blocked v then v\<lparr>is_blocked := False, blocked_by_id := None, blocked_at := None\<rparr>
      else v\<lparr>is_blocked := True, blocked_by_id := Some uid, blocked_at := Some now\<rparr>)"

definition toggle_block_requirement :: "int \<Rightarrow> int \<Rightarrow> nat \<Rightarrow> db \<Rightarrow> error + db" where
  "toggle_block_requirement version_id uid now s =
     (case find (\<lambda>v. rv_id v = version_id) (versions s) of
        None \<Rightarrow> Inl NotFound
      | Some version \<Rightarrow>
          (case version_project s version of
             Inl e \<Rightarrow> Inl e
           | Inr p \<Rightarrow>
               if project_user_id p \<noteq> uid then Inl Forbidden
               else Inr (s\<lparr>versions :=
                              map (\<lambda>v. if rv_id v = version_id then toggle_version uid now v else v)
                                (versions s)\<rparr>)))"


section \<open>Comment threads (\<open>routes.get_comments\<close>, \<open>routes.delete_comment\<close>)\<close>












section \<open>Notifications (\<open>app/utils/notifications.py\<close>)\<close>

text \<open>
  A notification keeps its recipient, its type and the entity it refers to; the title,
  message and metadata texts are not modelled.
\<close>

definition create_notification :: "int \<Rightarrow> string \<Rightarrow> string \<Rightarrow> int \<Rightarrow> notification" where
  "create_notification uid ntype rtype rid =
     \<lparr>n_user_id = uid, notification_type = ntype, related_type = rtype, related_id = rid\<rparr>"

text \<open>
  \<open>parse_mentions\<close>: \<open>re.findall(r'@(\w+(?:\.\w+)*@?\w*\.?\w*)', text)\<close>, then
  \<open>list(set(mentions))\<close>. Behind the first \<open>\w+\<close> every part of the pattern can match
  the empty string, so the greedy match never backtracks: it is the scan below. \<open>\w\<close> is
  a letter, a digit or the underscore (on the ASCII range). The order of
  \<open>list(set(...))\<close> is not fixed by Python; \<open>remdups\<close> picks one.
\<close>

definition is_word :: "char \<Rightarrow> bool" where
  "is_word c =
     (let n = (of_char c :: nat)
      in (48 \<le> n \<and> n \<le> 57) \<or> (65 \<le> n \<and> n \<le> 90) \<or> n = 95 \<or> (97 \<le> n \<and> n \<le> 122))"

function dotted :: "string \<Rightarrow> string" where
  "dotted s =
     (case s of
        [] \<Rightarrow> []
      | c # cs \<Rightarrow>
          if c = CHR ''.'' \<and> takeWhile is_word cs \<noteq> []
          then c # takeWhile is_word cs @ dotted (dropWhile is_word cs)
          else [])"
  by pat_completeness auto
termination
  by (relation "measure length") (auto simp: length_dropWhile_le less_Suc_eq_le)

definition opt_char :: "char \<Rightarrow> string \<Rightarrow> string" where
  "opt_char c s = (case s of [] \<Rightarrow> [] | x # xs \<Rightarrow> if x = c then [c] else [])"

definition mention_match :: "string \<Rightarrow> string option" where
  "mention_match s =
     (let w1 = takeWhile is_word s in
      if w1 = [] then None
      else
        let r1 = drop (length w1) s;
            d = dotted r1;
            r2 = drop (length d) r1;
            a = opt_char CHR ''@'' r2;
            r3 = drop (length a) r2;
            w2 = takeWhile is_word r3;
            r4 = drop (length w2) r3;
            p = opt_char CHR ''.'' r4;
            r5 = drop (length p) r4;
            w3 = takeWhile is_word r5
        in Some (w1 @ d @ a @ w2 @ p @ w3))"

function findall_mentions :: "string \<Rightarrow> string list" where
  "findall_mentions [] = []"
| "findall_mentions (c # cs) =
     (if c = CHR ''@'' then
        (case mention_match cs of
           None \<Rightarrow> findall_mentions cs
         | Some m \<Rightarrow> m # findall_mentions (drop (length m) cs))
      else findall_mentions cs)"
  by pat_completeness auto
termination
  by (relation "measure length") auto

definition parse_mentions :: "string \<Rightarrow> string list" where
  "parse_mentions txt = remdups (findall_mentions txt)"

text \<open>
  \<open>find_user_by_mention\<close>. The first query compares the e-mail with the mention; the
  second is \<open>User.email.like(f'{email_prefix}%')\<close>, SQLite's \<open>LIKE\<close>: letters match
  without regard to case and \<open>_\<close> in the pattern matches any character (a mention
  holds no \<open>%\<close>).
\<close>

fun like_prefix :: "string \<Rightarrow> string \<Rightarrow> bool" where
  "like_prefix [] e = True"
| "like_prefix (p # ps) [] = False"
| "like_prefix (p # ps) (c # cs) =
     ((p = CHR ''_'' \<or> lower_char p = lower_char c) \<and> like_prefix ps cs)"

definition project_has_user :: "project \<Rightarrow> user \<Rightarrow> bool" where
  "project_has_user p u = (project_user_id p = user_id u \<or> user_id u \<in> set (shared_with p))"

definition find_user_by_mention :: "string \<Rightarrow> project \<Rightarrow> db \<Rightarrow> user option" where
  "find_user_by_mention mention p s =
     (let exact = find (\<lambda>u. email u = mention) (users s);
          hit = (case exact of None \<Rightarrow> False | Some u \<Rightarrow> project_has_user p u)
      in
      if hit then exact
      else
        let email_prefix = takeWhile (\<lambda>c. c \<noteq> CHR ''@'') mention in
        (case find (\<lambda>u. like_prefix email_prefix (email u)) (users s) of
           None \<Rightarrow> None
         | Some u \<Rightarrow> if project_has_user p u then Some u else None))"

text \<open>
  \<open>notify_comment_added\<close>: first one \<open>mention\<close> notification per mention that
  resolves to a user other than the actor, then one \<open>comment\<close> notification per project
  user (owner, then \<open>shared_with\<close>) who is neither the actor nor among the resolved users.
\<close>

definition mention_notifications :: "comment \<Rightarrow> user \<Rightarrow> project \<Rightarrow> db \<Rightarrow> notification list" where
  "mention_notifications c actor p s =
     concat (map (\<lambda>mention.
                    case find_user_by_mention mention p s of
                      None \<Rightarrow> []
                    | Some mentioned_user \<Rightarrow>
                        if user_id mentioned_user \<noteq> user_id actor
                        then [create_notification (user_id mentioned_user) ''mention'' ''comment'' (comment_id c)]
                        else [])
              (parse_mentions (comment_text c)))"

definition mentioned_user_ids :: "comment \<Rightarrow> project \<Rightarrow> db \<Rightarrow> int list" where
  "mentioned_user_ids c p s =
     concat (map (\<lambda>m. case find_user_by_mention m p s of None \<Rightarrow> [] | Some u \<Rightarrow> [user_id u])
              (parse_mentions (comment_text c)))"

definition project_users :: "project \<Rightarrow> int list" where
  "project_users p = project_user_id p # shared_with p"

definition comment_notifications :: "comment \<Rightarrow> user \<Rightarrow> project \<Rightarrow> db \<Rightarrow> notification list" where
  "comment_notifications c actor p s =
     map (\<lambda>uid. create_notification uid ''comment'' ''comment'' (comment_id c))
       (filter (\<lambda>uid. uid \<noteq> user_id actor \<and> uid \<notin> set (mentioned_user_ids c p s))
          (project_users p))"

definition notify_comment_added :: "comment \<Rightarrow> user \<Rightarrow> db \<Rightarrow> error + db" where
  "notify_comment_added c actor s =
     (case find (\<lambda>v. rv_id v = c_version_id c) (versions s) of
        None \<Rightarrow> Inl AttributeError
      | Some version \<Rightarrow>
          (case version_project s version of
             Inl e \<Rightarrow> Inl e
           | Inr p \<Rightarrow>
               Inr (s\<lparr>notifications := notifications s @ mention_notifications c actor p s
                                        @ comment_notifications c actor p s\<rparr>)))"


text \<open>
  \<open>routes.create_comment\<close>: the comment is committed first; a failure of the
  notifications is swallowed.
\<close>

definition create_comment :: "int \<Rightarrow> user \<Rightarrow> string \<Rightarrow> int option \<Rightarrow> nat \<Rightarrow> db \<Rightarrow> error + db" where
  "create_comment version_id actor raw_text parent_id now s =
     (case find (\<lambda>v. rv_id v = version_id) (versions s) of
        None \<Rightarrow> Inl NotFound
      | Some version \<Rightarrow>
          (case version_project s version of
             Inl e \<Rightarrow> Inl e
           | Inr p \<Rightarrow>
               if \<not> is_accessible_by p (user_id actor) then Inl Forbidden
               else
                 let txt = strip raw_text;
                     parent_ok =
                       (case parent_id of
                          None \<Rightarrow> True
                        | Some k \<Rightarrow>
                            if k = 0 then True
                            else (case find (\<lambda>c. comment_id c = k) (comments s) of
                                    None \<Rightarrow> False
                                  | Some parent \<Rightarrow> c_version_id parent = version_id \<and> \<not> c_is_deleted parent))
                 in
                 if txt = [] then Inl ValidationFailure
                 else if \<not> parent_ok then Inl ValidationFailure
                 else
                   let c = \<lparr>comment_id = next_id (map comment_id (comments s)), c_version_id = version_id,
                            author_id = user_id actor, comment_text = txt, parent_comment_id = parent_id,
                            c_created_at = now, c_is_deleted = False\<rparr>;
                       s1 = s\<lparr>comments := comments s @ [c]\<rparr>
                   in (case notify_comment_added c actor s1 of Inl e \<Rightarrow> Inr s1 | Inr s2 \<Rightarrow> Inr s2)))"


section \<open>Editing a version in place: \<open>routes.update_requirement_version\<close>\<close>

text \<open>
  The texts of the history entries, in UTF-8: the separator \<open>" \<rightarrow> "\<close> (U+2192), the
  placeholder for an empty value (U+2013) and the fixed text recorded for a changed
  description.
\<close>

definition arrow :: string where
  "arrow = [CHR '' '', CHR 0xE2, CHR 0x86, CHR 0x92, CHR '' '']"

definition dash :: string where
  "dash = [CHR 0xE2, CHR 0x80, CHR 0x93]"

definition description_changed :: string where
  "description_changed = ''Beschreibung ge'' @ [CHR 0xC3, CHR 0xA4] @ ''ndert''"

definition or_dash :: "string \<Rightarrow> string" where
  "or_dash x = (if x = [] then dash else x)"



definition column_changes ::
  "requirement_version \<Rightarrow> string \<Rightarrow> string \<Rightarrow> string \<Rightarrow> string \<Rightarrow> (string \<times> string) list" where
  "column_changes version t d c new_status =
     (let old_category = (case category version of None \<Rightarrow> [] | Some x \<Rightarrow> x);
          ch1 = (if title version \<noteq> t then AList.update ''title'' (title version @ arrow @ t) [] else []);
          ch2 = (if description version \<noteq> d then AList.update ''description'' description_changed ch1 else ch1);
          ch3 = (if old_category \<noteq> c
                 then AList.update ''category'' (or_dash old_category @ arrow @ or_dash c) ch2 else ch2)
      in if status version \<noteq> new_status
         then AList.update ''status'' (status version @ arrow @ new_status) ch3 else ch3)"











section \<open>Reachable stores\<close>

text \<open>
  The stores the version-creating operations build from a store without requirements:
  generation, import and regeneration, and, when the flag is set, the deletion of single
  versions as well.
\<close>

inductive reachable :: "bool \<Rightarrow> db \<Rightarrow> bool" where
  initial: "requirements s = [] \<Longrightarrow> versions s = [] \<Longrightarrow> reachable del s"
| generated: "reachable del s \<Longrightarrow> generate_item pid uid cols it s = Inr s' \<Longrightarrow> reachable del s'"
| imported:
    "reachable del s \<Longrightarrow>
     import_row pid uid title_idx description_idx category_idx status_idx col_indices row s = Inr s' \<Longrightarrow>
     reachable del s'"
| regenerated: "reachable del s \<Longrightarrow> regenerate_requirement rid uid result s = Inr s' \<Longrightarrow> reachable del s'"
| deleted: "reachable True s \<Longrightarrow> delete_requirement_version version_id uid s = Inr s' \<Longrightarrow> reachable True s'"

text \<open>Indices \<open>1, 2, ..., n\<close> in this order.\<close>

definition gapless :: "requirement_version list \<Rightarrow> bool" where
  "gapless vs = (map version_index vs = [1..int (length vs)])"

section \<open>Invariants of the version store\<close>

text \<open>
  What every reachable store satisfies: each version belongs to a stored requirement, has
  a positive index and the label of its index, and the indices of one requirement are
  distinct. Without deletions the indices of a requirement are exactly \<open>1..n\<close>.
  \<open>appended\<close> is the effect of one successful creation: a version is added at the next
  index of an existing requirement, or at index 1 of a newly added one.
\<close>

definition stored_ok :: "db \<Rightarrow> bool" where
  "stored_ok s =
     ((\<forall>v\<in>set (versions s). requirement_id v \<in> req_id ` set (requirements s)
         \<and> 1 \<le> version_index v \<and> version_label (version_index v) = Inr (rv_label v))
      \<and> (\<forall>rid. distinct (map version_index (filter (\<lambda>v. requirement_id v = rid) (versions s)))))"

definition dense :: "db \<Rightarrow> bool" where
  "dense s = (\<forall>rid. version_index ` set (filter (\<lambda>v. requirement_id v = rid) (versions s))
                 = {1..int (length (filter (\<lambda>v. requirement_id v = rid) (versions s)))})"

definition appended :: "db \<Rightarrow> db \<Rightarrow> bool" where
  "appended s s' =
     (\<exists>v. versions s' = versions s @ [v]
        \<and> version_label (version_index v) = Inr (rv_label v)
        \<and> ((requirements s' = requirements s
              \<and> requirement_id v \<in> req_id ` set (requirements s)
              \<and> version_index v =
                  (if req_versions s (requirement_id v) = [] then 1
                   else version_index (last (req_versions s (requirement_id v))) + 1))
            \<or> (\<exists>r. requirements s' = requirements s @ [r] \<and> req_id r = requirement_id v
                  \<and> req_id r \<notin> req_id ` set (requirements s) \<and> version_index v = 1)))"

section \<open>An example project\<close>

text \<open>
  A project owned by user 1 and shared with users 2 and 3, with the custom column
  \<open>Priority\<close>; the stores after importing the row \<open>Login\<close>, after importing
  \<open>" login "\<close> again, and after deleting the first version.
\<close>

definition ex_project :: project where
  "ex_project = \<lparr>project_id = 1, project_user_id = 1, custom_columns = [''Priority''],
                  shared_with = [2, 3]\<rparr>"

definition ex_store :: db where
  "ex_store =
     \<lparr>users = [\<lparr>user_id = 1, email = ''alice@x.com''\<rparr>, \<lparr>user_id = 2, email = ''bob@x.com''\<rparr>,
               \<lparr>user_id = 3, email = ''carol@x.com''\<rparr>],
      projects = [ex_project],
      requirements = [], versions = [], history = [], comments = [], notifications = []\<rparr>"

text \<open>The first version of the example, and the same version blocked by the owner.\<close>

definition ex_version1 :: requirement_version where
  "ex_version1 = new_version 1 1 1 ''A'' ''Login'' ''first'' (Some []) ''Offen'' [(''Priority'', ''High'')] 1"

definition ex_blocked :: requirement_version where
  "ex_blocked = toggle_version 1 7 ex_version1"

definition ex_requirement :: requirement where
  "ex_requirement = \<lparr>req_id = 1, req_project_id = 1, req_key = Some ''login'', is_deleted = False\<rparr>"

definition ex_version :: "int \<Rightarrow> int \<Rightarrow> string \<Rightarrow> string \<Rightarrow> string \<Rightarrow> requirement_version" where
  "ex_version vid idx label t d =
     new_version vid 1 idx label t d (Some []) ''Offen'' [(''Priority'', ''High'')] 1"

definition ex_entry :: "int \<Rightarrow> string \<Rightarrow> history_entry" where
  "ex_entry vid label = created_entry vid 1 ''Version importiert (Excel)'' label"

definition ex_store1 :: db where
  "ex_store1 = ex_store\<lparr>requirements := [ex_requirement],
                        versions := [ex_version 1 1 ''A'' ''Login'' ''first''],
                        history := [ex_entry 1 ''A'']\<rparr>"

definition ex_store2 :: db where
  "ex_store2 = ex_store\<lparr>requirements := [ex_requirement],
                        versions := [ex_version 1 1 ''A'' ''Login'' ''first'',
                                     ex_version 2 2 ''B'' ''login'' ''second''],
                        history := [ex_entry 1 ''A'', ex_entry 2 ''B'']\<rparr>"

definition ex_store3 :: db where
  "ex_store3 = ex_store\<lparr>requirements := [ex_requirement],
                        versions := [ex_version 2 2 ''B'' ''login'' ''second''],
                        history := [ex_entry 2 ''B'']\<rparr>"

definition ex_import :: "string \<Rightarrow> string \<Rightarrow> db \<Rightarrow> error + db" where
  "ex_import t d s = import_row 1 1 0 1 None None [(''Priority'', 2)] [Some t, Some d, Some ''High''] s"


section \<open>Outcomes of resolving a candidate\<close>




section \<open>Invariant of the thread builder\<close>






text \<open>
  A comment of the owner that mentions user 2 twice, by e-mail prefix and by e-mail, and
  the store after its notifications were created.
\<close>

definition ex_alice :: user where
  "ex_alice = \<lparr>user_id = 1, email = ''alice@x.com''\<rparr>"

definition ex_bob :: user where
  "ex_bob = \<lparr>user_id = 2, email = ''bob@x.com''\<rparr>"

definition ex_mention_comment :: comment where
  "ex_mention_comment =
     \<lparr>comment_id = 5, c_version_id = 1, author_id = 1, comment_text = ''@bob @bob@x.com'',
      parent_comment_id = None, c_created_at = 12, c_is_deleted = False\<rparr>"

definition ex_notified :: db where
  "ex_notified =
     ex_store1\<lparr>notifications :=
                 [create_notification 2 ''mention'' ''comment'' 5,
                  create_notification 2 ''mention'' ''comment'' 5,
                  create_notification 3 ''comment'' ''comment'' 5]\<rparr>"

section \<open>Reading an update\<close>







section \<open>Key normalisation: lemmas\<close>
































section \<open>Version sequences: lemmas\<close>

lemma fold_max_ge: "(a::int) \<le> fold max xs a"
  by (induction xs arbitrary: a) (auto intro: order_trans [OF max.cobounded2])

lemma fold_max_mem: "(x::int) \<in> set xs \<Longrightarrow> x \<le> fold max xs a"
proof (induction xs arbitrary: a)
  case Nil
  then show ?case by simp
next
  case (Cons y ys)
  show ?case
  proof (cases "x = y")
    case True
    have "y \<le> max y a" by simp
    also have "\<dots> \<le> fold max ys (max y a)" by (rule fold_max_ge)
    finally show ?thesis using True by simp
  next
    case False
    with Cons show ?thesis by simp
  qed
qed

lemma next_id_fresh: "next_id ids \<notin> set ids"
proof
  assume "next_id ids \<in> set ids"
  then have "next_id ids \<le> fold max ids 0" by (rule fold_max_mem)
  then show False by (simp add: next_id_def)
qed

lemma sorted_last_Max: "sorted xs \<Longrightarrow> xs \<noteq> [] \<Longrightarrow> last xs = Max (set (xs::int list))"
proof (induction xs)
  case Nil
  then show ?case by simp
next
  case (Cons x xs)
  show ?case
  proof (cases "xs = []")
    case True
    then show ?thesis by simp
  next
    case False
    with Cons have "last xs = Max (set xs)" and "\<forall>y\<in>set xs. x \<le> y" by auto
    moreover have "Max (set xs) \<in> set xs" using False by simp
    ultimately have "max x (Max (set xs)) = Max (set xs)" by (simp add: max_def)
    then show ?thesis using False \<open>last xs = Max (set xs)\<close> by simp
  qed
qed

lemma last_req_versions:
  assumes "req_versions s rid \<noteq> []"
  shows "version_index (last (req_versions s rid))
         = Max (version_index ` set (filter (\<lambda>v. requirement_id v = rid) (versions s)))"
proof -
  let ?vs = "filter (\<lambda>v. requirement_id v = rid) (versions s)"
  have ne: "map version_index (sort_key version_index ?vs) \<noteq> []"
    using assms by (simp add: req_versions_def)
  have "version_index (last (sort_key version_index ?vs))
        = last (map version_index (sort_key version_index ?vs))"
    using ne by (simp add: last_map)
  also have "\<dots> = Max (set (map version_index (sort_key version_index ?vs)))"
    using ne by (intro sorted_last_Max) simp_all
  finally show ?thesis by (simp add: req_versions_def)
qed

lemma req_versions_Nil: "req_versions s rid = [] \<longleftrightarrow> filter (\<lambda>v. requirement_id v = rid) (versions s) = []"
proof -
  have "length (req_versions s rid) = length (filter (\<lambda>v. requirement_id v = rid) (versions s))"
    by (simp add: req_versions_def)
  then show ?thesis by (metis length_0_conv)
qed

lemma py_chr_label: "0 < n \<Longrightarrow> py_chr (65 + (n - 1)) = version_label n"
  by (simp add: version_label_def)

lemma version_label_1: "version_label 1 = Inr ''A''"
  by code_simp

lemma stored_ok_appended:
  assumes ok: "stored_ok s" and app: "appended s s'"
  shows "stored_ok s'"
proof -
  from app obtain v where vs': "versions s' = versions s @ [v]"
    and lab: "version_label (version_index v) = Inr (rv_label v)"
    and alt: "(requirements s' = requirements s
              \<and> requirement_id v \<in> req_id ` set (requirements s)
              \<and> version_index v =
                  (if req_versions s (requirement_id v) = [] then 1
                   else version_index (last (req_versions s (requirement_id v))) + 1))
            \<or> (\<exists>r. requirements s' = requirements s @ [r] \<and> req_id r = requirement_id v
                  \<and> req_id r \<notin> req_id ` set (requirements s) \<and> version_index v = 1)"
    unfolding appended_def by blast
  let ?old = "filter (\<lambda>x. requirement_id x = requirement_id v) (versions s)"
  from ok have J: "\<forall>x\<in>set (versions s). requirement_id x \<in> req_id ` set (requirements s)"
    and P: "\<forall>x\<in>set (versions s). 1 \<le> version_index x"
    and L: "\<forall>x\<in>set (versions s). version_label (version_index x) = Inr (rv_label x)"
    and D: "\<And>rid. distinct (map version_index (filter (\<lambda>x. requirement_id x = rid) (versions s)))"
    unfolding stored_ok_def by auto
  have reqs: "req_id ` set (requirements s) \<subseteq> req_id ` set (requirements s')"
    and vin: "requirement_id v \<in> req_id ` set (requirements s')"
    using alt by auto
  have fresh: "version_index v \<notin> version_index ` set ?old \<and> 1 \<le> version_index v"
    using alt
  proof
    assume a: "requirements s' = requirements s
              \<and> requirement_id v \<in> req_id ` set (requirements s)
              \<and> version_index v =
                  (if req_versions s (requirement_id v) = [] then 1
                   else version_index (last (req_versions s (requirement_id v))) + 1)"
    show ?thesis
    proof (cases "req_versions s (requirement_id v) = []")
      case True
      then have "?old = []" by (simp add: req_versions_Nil)
      with a True show ?thesis by simp
    next
      case False
      then have ne: "?old \<noteq> []" by (simp add: req_versions_Nil)
      have m: "version_index v = Max (version_index ` set ?old) + 1"
        using a False by (simp add: last_req_versions)
      have "version_index v \<notin> version_index ` set ?old"
      proof
        assume "version_index v \<in> version_index ` set ?old"
        then have "version_index v \<le> Max (version_index ` set ?old)" by (intro Max_ge) auto
        with m show False by simp
      qed
      moreover have "Max (version_index ` set ?old) \<in> version_index ` set ?old"
        using ne by (intro Max_in) (auto simp: filter_empty_conv)
      then have "1 \<le> Max (version_index ` set ?old)" using P by auto
      ultimately show ?thesis using m by simp
    qed
  next
    assume "\<exists>r. requirements s' = requirements s @ [r] \<and> req_id r = requirement_id v
                  \<and> req_id r \<notin> req_id ` set (requirements s) \<and> version_index v = 1"
    then have nin: "requirement_id v \<notin> req_id ` set (requirements s)" and one: "version_index v = 1"
      by auto
    have "?old = []"
    proof (rule ccontr)
      assume "?old \<noteq> []"
      then obtain x where "x \<in> set (versions s)" "requirement_id x = requirement_id v"
        by (auto simp: filter_empty_conv)
      with J nin show False by metis
    qed
    with one show ?thesis by simp
  qed
  have D': "distinct (map version_index (filter (\<lambda>x. requirement_id x = rid) (versions s')))" for rid
  proof (cases "rid = requirement_id v")
    case True
    then show ?thesis using D [of rid] fresh by (simp add: vs')
  next
    case False
    then show ?thesis using D [of rid] by (simp add: vs')
  qed
  show ?thesis
    unfolding stored_ok_def using J P L reqs vin lab fresh D' by (auto simp: vs')
qed

lemma dense_appended:
  assumes ok: "stored_ok s" and de: "dense s" and app: "appended s s'"
  shows "dense s'"
proof -
  from app obtain v where vs': "versions s' = versions s @ [v]"
    and alt: "(requirements s' = requirements s
              \<and> requirement_id v \<in> req_id ` set (requirements s)
              \<and> version_index v =
                  (if req_versions s (requirement_id v) = [] then 1
                   else version_index (last (req_versions s (requirement_id v))) + 1))
            \<or> (\<exists>r. requirements s' = requirements s @ [r] \<and> req_id r = requirement_id v
                  \<and> req_id r \<notin> req_id ` set (requirements s) \<and> version_index v = 1)"
    unfolding appended_def by blast
  let ?old = "filter (\<lambda>x. requirement_id x = requirement_id v) (versions s)"
  from ok have J: "\<forall>x\<in>set (versions s). requirement_id x \<in> req_id ` set (requirements s)"
    unfolding stored_ok_def by auto
  have old: "version_index ` set ?old = {1..int (length ?old)}"
    using de unfolding dense_def by blast
  have idx: "version_index v = int (length ?old) + 1"
    using alt
  proof
    assume a: "requirements s' = requirements s
              \<and> requirement_id v \<in> req_id ` set (requirements s)
              \<and> version_index v =
                  (if req_versions s (requirement_id v) = [] then 1
                   else version_index (last (req_versions s (requirement_id v))) + 1)"
    show ?thesis
    proof (cases "req_versions s (requirement_id v) = []")
      case True
      then have "?old = []" by (simp add: req_versions_Nil)
      with a True show ?thesis by simp
    next
      case False
      then have ne: "?old \<noteq> []" by (simp add: req_versions_Nil)
      then have "0 < length ?old" by simp
      then have "Max {1..int (length ?old)} = int (length ?old)" by (intro Max_eqI) (auto simp: Suc_le_eq)
      then show ?thesis using a False old by (simp add: last_req_versions)
    qed
  next
    assume "\<exists>r. requirements s' = requirements s @ [r] \<and> req_id r = requirement_id v
                  \<and> req_id r \<notin> req_id ` set (requirements s) \<and> version_index v = 1"
    then have nin: "requirement_id v \<notin> req_id ` set (requirements s)" and one: "version_index v = 1"
      by auto
    have "?old = []"
    proof (rule ccontr)
      assume "?old \<noteq> []"
      then obtain x where "x \<in> set (versions s)" "requirement_id x = requirement_id v"
        by (auto simp: filter_empty_conv)
      with J nin show False by metis
    qed
    with one show ?thesis by simp
  qed
  show ?thesis
    unfolding dense_def
  proof
    fix rid
    show "version_index ` set (filter (\<lambda>x. requirement_id x = rid) (versions s'))
          = {1..int (length (filter (\<lambda>x. requirement_id x = rid) (versions s')))}"
    proof (cases "rid = requirement_id v")
      case True
      have "{1..1 + int (length ?old)} = insert (1 + int (length ?old)) {1..int (length ?old)}"
        by auto
      then show ?thesis using True old idx by (simp add: vs' add.commute)
    next
      case False
      then show ?thesis using de unfolding dense_def by (simp add: vs')
    qed
  qed
qed


lemma find_mem: "find P xs = Some x \<Longrightarrow> x \<in> set xs \<and> P x"
  by (induction xs) (auto split: if_splits)

lemma lookup_by_id_mem: "lookup_by_id pid hint s = Some r \<Longrightarrow> r \<in> set (requirements s)"
  by (auto simp: lookup_by_id_def split: option.splits if_splits dest: find_mem)

lemma lookup_by_key_mem: "lookup_by_key pid k s = Some r \<Longrightarrow> r \<in> set (requirements s)"
  by (auto simp: lookup_by_key_def dest: find_mem)

lemma versions_add_version:
  "versions (add_version rid idx label t d c st cd uid action s)
   = versions s @ [new_version (next_id (map rv_id (versions s))) rid idx label t d c st cd uid]"
  by (simp add: add_version_def Let_def)

lemma requirements_add_version:
  "requirements (add_version rid idx label t d c st cd uid action s) = requirements s"
  by (simp add: add_version_def Let_def)

lemma new_version_sel:
  "requirement_id (new_version vid rid idx label t d c st cd uid) = rid"
  "version_index (new_version vid rid idx label t d c st cd uid) = idx"
  "rv_label (new_version vid rid idx label t d c st cd uid) = label"
  "rv_id (new_version vid rid idx label t d c st cd uid) = vid"
  by (simp_all add: new_version_def)

lemma next_version_info_Inr:
  "next_version_info vs = Inr (idx, label) \<Longrightarrow>
   version_label idx = Inr label \<and> idx = (if vs = [] then 1 else version_index (last vs) + 1)"
  by (auto simp: next_version_info_def Let_def split: if_splits sum.splits)

lemma appended_existing:
  assumes "r \<in> set (requirements s)" and "version_label idx = Inr label"
    and "idx = (if req_versions s (req_id r) = [] then 1
                else version_index (last (req_versions s (req_id r))) + 1)"
  shows "appended s (add_version (req_id r) idx label t d c st cd uid action s)"
  unfolding appended_def
  using assms
  by (intro exI [of _ "new_version (next_id (map rv_id (versions s))) (req_id r) idx label t d c st cd uid"])
     (simp add: versions_add_version requirements_add_version new_version_sel)

lemma appended_new:
  assumes "version_label 1 = Inr label"
  shows "appended s
           (add_version (next_id (map req_id (requirements s))) 1 label t d c st cd uid action
              (s\<lparr>requirements := requirements s @
                   [\<lparr>req_id = next_id (map req_id (requirements s)), req_project_id = pid,
                     req_key = k, is_deleted = False\<rparr>]\<rparr>))"
proof -
  have "next_id (map req_id (requirements s)) \<notin> req_id ` set (requirements s)"
    using next_id_fresh [of "map req_id (requirements s)"] by simp
  then show ?thesis
    unfolding appended_def using assms
    by (intro exI [of _ "new_version (next_id (map rv_id (versions s)))
                           (next_id (map req_id (requirements s))) 1 label t d c st cd uid"])
       (simp add: versions_add_version requirements_add_version new_version_sel)
qed

lemma generate_item_appended:
  assumes "generate_item pid uid cols it s = Inr s'"
  shows "s' = s \<or> appended s s'"
proof (cases "strip (dict_get (item_fields it) ''title'' []) = []")
  case True
  with assms show ?thesis by (simp add: generate_item_def)
next
  case False
  show ?thesis
  proof (cases "lookup_by_id pid (item_id it) s")
    case (Some r)
    then have mem: "r \<in> set (requirements s)" by (rule lookup_by_id_mem)
    from assms False Some obtain idx label where
      nv: "next_version_info (req_versions s (req_id r)) = Inr (idx, label)"
      and s': "s' = add_version (req_id r) idx label (strip (dict_get (item_fields it) ''title'' []))
                 (strip (dict_get (item_fields it) ''description'' []))
                 (Some (dict_get (item_fields it) ''category'' []))
                 (if dict_get (item_fields it) ''status'' [] = [] then ''Offen''
                  else dict_get (item_fields it) ''status'' [])
                 (generate_custom_data cols it) uid ''Version erstellt'' s"
      by (auto simp: generate_item_def Let_def split: sum.splits)
    from next_version_info_Inr [OF nv] mem show ?thesis
      unfolding s' by (intro disjI2 appended_existing) auto
  next
    case None
    show ?thesis
    proof (cases "lookup_by_key pid (normalize_key (strip (dict_get (item_fields it) ''title'' []))) s")
      case (Some r)
      then have mem: "r \<in> set (requirements s)" by (rule lookup_by_key_mem)
      from assms False None Some obtain idx label where
        nv: "next_version_info (req_versions s (req_id r)) = Inr (idx, label)"
        and s': "s' = add_version (req_id r) idx label (strip (dict_get (item_fields it) ''title'' []))
                   (strip (dict_get (item_fields it) ''description'' []))
                   (Some (dict_get (item_fields it) ''category'' []))
                   (if dict_get (item_fields it) ''status'' [] = [] then ''Offen''
                    else dict_get (item_fields it) ''status'' [])
                   (generate_custom_data cols it) uid ''Version erstellt'' s"
        by (auto simp: generate_item_def Let_def split: sum.splits)
      from next_version_info_Inr [OF nv] mem show ?thesis
        unfolding s' by (intro disjI2 appended_existing) auto
    next
      case N2: None
      from assms False None N2 obtain label where
        vl: "version_label 1 = Inr label"
        and s': "s' = add_version (next_id (map req_id (requirements s))) 1 label
                   (strip (dict_get (item_fields it) ''title'' []))
                   (strip (dict_get (item_fields it) ''description'' []))
                   (Some (dict_get (item_fields it) ''category'' []))
                   (if dict_get (item_fields it) ''status'' [] = [] then ''Offen''
                    else dict_get (item_fields it) ''status'' [])
                   (generate_custom_data cols it) uid ''Version erstellt''
                   (s\<lparr>requirements := requirements s @
                       [\<lparr>req_id = next_id (map req_id (requirements s)), req_project_id = pid,
                         req_key = Some (normalize_key (strip (dict_get (item_fields it) ''title'' []))),
                         is_deleted = False\<rparr>]\<rparr>)"
        by (auto simp: generate_item_def Let_def split: sum.splits)
      show ?thesis unfolding s' by (intro disjI2 appended_new vl)
    qed
  qed
qed

lemma next_index_positive:
  assumes "stored_ok s"
  shows "0 < (if req_versions s rid = [] then 1 else version_index (last (req_versions s rid)) + 1)"
proof (cases "req_versions s rid = []")
  case True
  then show ?thesis by simp
next
  case False
  then have "last (req_versions s rid) \<in> set (req_versions s rid)" by simp
  then have "last (req_versions s rid) \<in> set (versions s)" by (auto simp: req_versions_def)
  with assms have "1 \<le> version_index (last (req_versions s rid))" by (auto simp: stored_ok_def)
  with False show ?thesis by simp
qed

lemma import_row_appended:
  assumes ok: "stored_ok s"
    and imp: "import_row pid uid title_idx description_idx category_idx status_idx col_indices row s = Inr s'"
  shows "s' = s \<or> appended s s'"
proof (cases "row = [] \<or> length row \<le> title_idx \<or> \<not> cell_truthy (row ! title_idx)
              \<or> strip (cell_str (row ! title_idx)) = [] \<or> opt_cell row (Some description_idx) [] = []")
  case True
  then have "import_row pid uid title_idx description_idx category_idx status_idx col_indices row s = Inr s"
    by (auto simp: import_row_def Let_def)
  with imp show ?thesis by simp
next
  case False
  define t where "t = strip (cell_str (row ! title_idx))"
  define d where "d = opt_cell row (Some description_idx) []"
  define c where "c = opt_cell row category_idx []"
  define st where "st = (if opt_cell row status_idx ''Offen'' \<notin> set [''Offen'', ''In Arbeit'', ''Fertig'']
                          then ''Offen'' else opt_cell row status_idx ''Offen'')"
  define cd where "cd = import_custom_data col_indices row"
  define nxt where "nxt = (\<lambda>rid. if req_versions s rid = [] then (1::int)
                                   else version_index (last (req_versions s rid)) + 1)"
  have eq: "import_row pid uid title_idx description_idx category_idx status_idx col_indices row s =
      (case lookup_by_key pid (normalize_key t) s of
         None \<Rightarrow>
           Inr (add_version (next_id (map req_id (requirements s))) 1 ''A'' t d (Some c) st cd uid
                  ''Version importiert (Excel)''
                  (s\<lparr>requirements := requirements s @
                      [\<lparr>req_id = next_id (map req_id (requirements s)), req_project_id = pid,
                        req_key = Some (normalize_key t), is_deleted = False\<rparr>]\<rparr>))
       | Some req \<Rightarrow>
           (case py_chr (65 + (nxt (req_id req) - 1)) of
              Inl e \<Rightarrow> Inl e
            | Inr label \<Rightarrow>
                Inr (add_version (req_id req) (nxt (req_id req)) label t d (Some c) st cd uid
                       ''Version importiert (Excel)'' s)))"
    using False unfolding import_row_def Let_def t_def d_def c_def st_def cd_def nxt_def by simp
  show ?thesis
  proof (cases "lookup_by_key pid (normalize_key t) s")
    case None
    with imp eq have s': "s' = add_version (next_id (map req_id (requirements s))) 1 ''A'' t d (Some c) st cd uid
                  ''Version importiert (Excel)''
                  (s\<lparr>requirements := requirements s @
                      [\<lparr>req_id = next_id (map req_id (requirements s)), req_project_id = pid,
                        req_key = Some (normalize_key t), is_deleted = False\<rparr>]\<rparr>)"
      by simp
    show ?thesis unfolding s' by (intro disjI2 appended_new version_label_1)
  next
    case (Some r)
    then have mem: "r \<in> set (requirements s)" by (rule lookup_by_key_mem)
    from imp eq Some obtain label where
      lab: "py_chr (65 + (nxt (req_id r) - 1)) = Inr label"
      and s': "s' = add_version (req_id r) (nxt (req_id r)) label t d (Some c) st cd uid
                       ''Version importiert (Excel)'' s"
      by (cases "py_chr (65 + (nxt (req_id r) - 1))") auto
    have pos: "0 < nxt (req_id r)"
      using next_index_positive [OF ok, of "req_id r"] by (simp add: nxt_def)
    have "version_label (nxt (req_id r)) = Inr label"
      using lab py_chr_label [OF pos] by simp
    then show ?thesis unfolding s' using mem
      by (intro disjI2 appended_existing) (auto simp: nxt_def)
  qed
qed

lemma regenerate_requirement_appended:
  assumes ok: "stored_ok s"
    and reg: "regenerate_requirement rid uid result s = Inr s'"
  shows "s' = s \<or> appended s s'"
proof -
  from reg obtain req where f: "find (\<lambda>r. req_id r = rid) (requirements s) = Some req"
    by (auto simp: regenerate_requirement_def split: option.splits)
  then have mem: "req \<in> set (requirements s)" and rid: "req_id req = rid"
    by (auto dest: find_mem)
  from reg f obtain p where p: "requirement_project s req = Inr p"
    by (auto simp: regenerate_requirement_def split: sum.splits)
  show ?thesis
  proof (cases "req_versions s rid = [] \<or> result = []")
    case True
    with reg f p show ?thesis
      by (auto simp: regenerate_requirement_def split: if_splits)
  next
    case False
    define latest where "latest = last (req_versions s rid)"
    from reg f p False obtain label where
      lab: "py_chr (65 + (version_index latest + 1 - 1)) = Inr label"
      and s': "s' = add_version rid (version_index latest + 1) label
                 (dict_get result ''title'' (title latest))
                 (dict_get result ''description'' (description latest))
                 (case map_of result ''category'' of None \<Rightarrow> category latest | Some c \<Rightarrow> Some c)
                 ''Offen'' (regenerate_custom_data (custom_columns p) result latest)
                 uid ''Version regeneriert (KI)'' s"
      unfolding regenerate_requirement_def Let_def latest_def
      by (auto split: if_splits sum.splits)
    have pos: "0 < version_index latest + 1"
      using next_index_positive [OF ok, of rid] False by (simp add: latest_def)
    have "version_label (version_index latest + 1) = Inr label"
      using lab py_chr_label [OF pos] by simp
    then have "appended s (add_version (req_id req) (version_index latest + 1) label
                 (dict_get result ''title'' (title latest))
                 (dict_get result ''description'' (description latest))
                 (case map_of result ''category'' of None \<Rightarrow> category latest | Some c \<Rightarrow> Some c)
                 ''Offen'' (regenerate_custom_data (custom_columns p) result latest)
                 uid ''Version regeneriert (KI)'' s)"
      using mem False by (intro appended_existing) (auto simp: rid latest_def)
    then show ?thesis unfolding s' rid by simp
  qed
qed

lemma delete_requirement_version_cases:
  assumes "delete_requirement_version version_id uid s = Inr s'"
  shows "(versions s' = versions s
           \<and> (\<exists>k. requirements s' = map (\<lambda>r. if req_id r = k then r\<lparr>is_deleted := True\<rparr> else r) (requirements s)))
         \<or> (versions s' = filter (\<lambda>v. rv_id v \<noteq> version_id) (versions s)
             \<and> requirements s' = requirements s)"
  using assms unfolding delete_requirement_version_def Let_def
  by (auto split: option.splits sum.splits if_splits)

lemma req_id_mark_deleted:
  "map req_id (map (\<lambda>r. if req_id r = k then r\<lparr>is_deleted := True\<rparr> else r) rs) = map req_id rs"
  by (induction rs) auto

lemma stored_ok_deleted:
  assumes ok: "stored_ok s" and del: "delete_requirement_version version_id uid s = Inr s'"
  shows "stored_ok s'"
proof -
  note cases = delete_requirement_version_cases [OF del]
  from cases have fil: "versions s' = versions s \<or> versions s' = filter (\<lambda>v. rv_id v \<noteq> version_id) (versions s)"
    by blast
  then have sub: "set (versions s') \<subseteq> set (versions s)"
    by auto
  from cases have "map req_id (requirements s') = map req_id (requirements s)"
    by (auto simp: req_id_mark_deleted)
  then have "set (map req_id (requirements s')) = set (map req_id (requirements s))"
    by simp
  then have ids: "req_id ` set (requirements s') = req_id ` set (requirements s)"
    by simp
  have "distinct (map version_index (filter (\<lambda>v. requirement_id v = rid) (versions s')))" for rid
  proof -
    have d: "distinct (map version_index (filter (\<lambda>v. requirement_id v = rid) (versions s)))"
      using ok by (simp add: stored_ok_def)
    from fil show ?thesis
    proof
      assume "versions s' = versions s"
      with d show ?thesis by simp
    next
      assume f: "versions s' = filter (\<lambda>v. rv_id v \<noteq> version_id) (versions s)"
      have "filter (\<lambda>v. requirement_id v = rid) (versions s')
            = filter (\<lambda>v. rv_id v \<noteq> version_id) (filter (\<lambda>v. requirement_id v = rid) (versions s))"
        unfolding f by (simp add: conj_commute)
      with distinct_map_filter [OF d, of "\<lambda>v. rv_id v \<noteq> version_id"] show ?thesis by simp
    qed
  qed
  with ok sub ids show ?thesis unfolding stored_ok_def by blast
qed

lemma reachable_stored_ok: "reachable del s \<Longrightarrow> stored_ok s"
proof (induction rule: reachable.induct)
  case (initial s del)
  then show ?case by (simp add: stored_ok_def)
next
  case (generated del s pid uid cols it s')
  with generate_item_appended [OF generated(2)] show ?case
    by (auto intro: stored_ok_appended)
next
  case (imported del s pid uid title_idx description_idx category_idx status_idx col_indices row s')
  with import_row_appended [OF imported(3) imported(2)] show ?case
    by (auto intro: stored_ok_appended)
next
  case (regenerated del s rid uid result s')
  with regenerate_requirement_appended [OF regenerated(3) regenerated(2)] show ?case
    by (auto intro: stored_ok_appended)
next
  case (deleted s version_id uid s')
  then show ?case by (auto intro: stored_ok_deleted)
qed

lemma reachable_dense: "reachable del s \<Longrightarrow> \<not> del \<Longrightarrow> dense s"
proof (induction rule: reachable.induct)
  case (initial s del)
  then show ?case by (simp add: dense_def)
next
  case (generated del s pid uid cols it s')
  then have "stored_ok s" "dense s" by (auto intro: reachable_stored_ok)
  with generate_item_appended [OF generated(2)] show ?case
    by (auto intro: dense_appended)
next
  case (imported del s pid uid title_idx description_idx category_idx status_idx col_indices row s')
  then have ok: "stored_ok s" and "dense s" by (auto intro: reachable_stored_ok)
  with import_row_appended [OF ok imported(2)] show ?case
    by (auto intro: dense_appended)
next
  case (regenerated del s rid uid result s')
  then have ok: "stored_ok s" and "dense s" by (auto intro: reachable_stored_ok)
  with regenerate_requirement_appended [OF ok regenerated(2)] show ?case
    by (auto intro: dense_appended)
next
  case (deleted s version_id uid s')
  then show ?case by simp
qed

lemma ex_import1: "ex_import ''Login'' ''first'' ex_store = Inr ex_store1"
  by code_simp

lemma ex_import2: "ex_import '' login '' ''second'' ex_store1 = Inr ex_store2"
  by code_simp

lemma ex_delete: "delete_requirement_version 1 1 ex_store2 = Inr ex_store3"
  by code_simp

lemma reachable_ex_store2: "reachable del ex_store2"
proof -
  have "reachable del ex_store" by (rule reachable.initial) (simp_all add: ex_store_def)
  then have "reachable del ex_store1"
    using ex_import1 unfolding ex_import_def by (rule reachable.imported)
  then show ?thesis
    using ex_import2 unfolding ex_import_def by (rule reachable.imported)
qed

lemma reachable_ex_store3: "reachable True ex_store3"
  using reachable_ex_store2 ex_delete by (rule reachable.deleted)

lemma labels_1_26: "list_all (\<lambda>n. version_label n = Inr (nth_letter n)) [1..26]"
  by code_simp

lemma version_label_letter:
  assumes "1 \<le> n" "n \<le> 26"
  shows "version_label n = Inr (nth_letter n)"
proof -
  have "n \<in> set [1..26]" using assms by simp
  with labels_1_26 show ?thesis unfolding list_all_iff by blast
qed

lemma map_index_req_versions:
  "sorted (map version_index (req_versions s rid))"
  "set (req_versions s rid) = set (filter (\<lambda>v. requirement_id v = rid) (versions s))"
  "distinct (map version_index (req_versions s rid))
   = distinct (map version_index (filter (\<lambda>v. requirement_id v = rid) (versions s)))"
  "length (req_versions s rid) = length (filter (\<lambda>v. requirement_id v = rid) (versions s))"
proof -
  show "sorted (map version_index (req_versions s rid))" by (simp add: req_versions_def)
  show "set (req_versions s rid) = set (filter (\<lambda>v. requirement_id v = rid) (versions s))"
    by (simp add: req_versions_def)
  have "mset (map version_index (req_versions s rid))
        = mset (map version_index (filter (\<lambda>v. requirement_id v = rid) (versions s)))"
    by (simp add: req_versions_def)
  then show "distinct (map version_index (req_versions s rid))
   = distinct (map version_index (filter (\<lambda>v. requirement_id v = rid) (versions s)))"
    by (rule mset_eq_imp_distinct_iff)
  show "length (req_versions s rid) = length (filter (\<lambda>v. requirement_id v = rid) (versions s))"
    by (simp add: req_versions_def)
qed

lemma stored_ok_increasing:
  assumes "stored_ok s"
  shows "sorted_wrt (<) (map version_index (req_versions s rid))"
  using assms map_index_req_versions [of s rid]
  by (simp add: strict_sorted_iff stored_ok_def)

lemma stored_ok_labels:
  assumes "stored_ok s" and "v \<in> set (req_versions s rid)"
  shows "1 \<le> version_index v \<and> (version_index v \<le> 26 \<longrightarrow> rv_label v = nth_letter (version_index v))"
proof -
  from assms(2) have "v \<in> set (versions s)" by (simp add: map_index_req_versions)
  with assms(1) have p: "1 \<le> version_index v" and l: "version_label (version_index v) = Inr (rv_label v)"
    by (auto simp: stored_ok_def)
  show ?thesis using p l version_label_letter [of "version_index v"] by auto
qed

lemma dense_gapless:
  assumes "stored_ok s" and "dense s"
  shows "gapless (req_versions s rid)"
proof -
  let ?xs = "map version_index (req_versions s rid)"
  let ?n = "length (req_versions s rid)"
  have "sorted ?xs" by (rule map_index_req_versions)
  moreover have "distinct ?xs"
    using assms(1) by (simp add: map_index_req_versions stored_ok_def)
  moreover have "set ?xs = set [1..int ?n]"
    using assms(2) by (simp add: map_index_req_versions dense_def)
  ultimately have "?xs = [1..int ?n]"
    by (intro sorted_distinct_set_unique) simp_all
  then show ?thesis by (simp add: gapless_def)
qed

text \<open>
  C1 (amended). In every store reachable by generation, import and regeneration, the
  versions of a requirement sorted by index are gapless from 1. When single versions
  are deleted as well, the indices are not renumbered: they stay strictly increasing
  and positive. In both cases the stored label of a version with index \<open>1..26\<close> is the
  letter of that index.
\<close>

theorem version_sequence:
  "(reachable False s \<longrightarrow> gapless (req_versions s rid))
   \<and> (reachable del s \<longrightarrow>
        sorted_wrt (<) (map version_index (req_versions s rid))
        \<and> (\<forall>v\<in>set (req_versions s rid).
              1 \<le> version_index v
              \<and> (version_index v \<le> 26 \<longrightarrow> rv_label v = nth_letter (version_index v))))"
proof (intro conjI impI ballI)
  assume "reachable False s"
  then have "stored_ok s" "dense s" by (auto intro: reachable_stored_ok reachable_dense)
  then show "gapless (req_versions s rid)" by (rule dense_gapless)
next
  assume "reachable del s"
  then show "sorted_wrt (<) (map version_index (req_versions s rid))"
    by (intro stored_ok_increasing reachable_stored_ok)
next
  fix v assume "reachable del s" "v \<in> set (req_versions s rid)"
  then show "1 \<le> version_index v"
    using stored_ok_labels [OF reachable_stored_ok] by blast
next
  fix v assume "reachable del s" "v \<in> set (req_versions s rid)" "version_index v \<le> 26"
  then show "rv_label v = nth_letter (version_index v)"
    using stored_ok_labels [OF reachable_stored_ok] by blast
qed

theorem version_sequence_witness:
  "reachable False ex_store2 \<and> gapless (req_versions ex_store2 1)
   \<and> reachable True ex_store3
   \<and> sorted_wrt (<) (map version_index (req_versions ex_store3 1))
   \<and> list_all (\<lambda>v. rv_label v = nth_letter (version_index v)) (req_versions ex_store3 1)"
proof -
  have a: "reachable False ex_store2" by (rule reachable_ex_store2)
  have b: "reachable True ex_store3" by (rule reachable_ex_store3)
  have c: "\<forall>v\<in>set (req_versions ex_store3 1). version_index v \<le> 26" by code_simp
  show ?thesis
    unfolding list_all_iff
    using a b c version_sequence [of ex_store2 1 False] version_sequence [of ex_store3 1 True]
    by blast
qed

theorem version_sequence_counterexample:
  "reachable True ex_store2
   \<and> delete_requirement_version 1 1 ex_store2 = Inr ex_store3
   \<and> reachable True ex_store3
   \<and> map version_index (req_versions ex_store3 1) = [2]
   \<and> \<not> gapless (req_versions ex_store3 1)"
proof -
  have "map version_index (req_versions ex_store3 1) = [2]" by code_simp
  moreover have "\<not> gapless (req_versions ex_store3 1)" by code_simp
  ultimately show ?thesis
    using reachable_ex_store2 reachable_ex_store3 ex_delete by blast
qed

section \<open>Blocking and deletion: theorems\<close>

text \<open>
  C5. \<open>can_be_edited_by\<close> holds for every user while the version is not blocked; while
  it is blocked it holds exactly for the user recorded as the blocker and for the project
  owner.
\<close>

theorem can_be_edited_by_spec:
  "(\<not> is_blocked v \<longrightarrow> can_be_edited_by p v uid)
   \<and> (is_blocked v \<longrightarrow>
        can_be_edited_by p v uid = (blocked_by_id v = Some uid \<or> project_user_id p = uid))"
  by (simp add: can_be_edited_by_def)

theorem can_be_edited_by_spec_witness:
  "\<not> is_blocked ex_version1 \<and> can_be_edited_by ex_project ex_version1 3
   \<and> is_blocked ex_blocked \<and> can_be_edited_by ex_project ex_blocked 1
   \<and> \<not> can_be_edited_by ex_project ex_blocked 2"
proof -
  have a: "\<not> is_blocked ex_version1" by code_simp
  have b: "is_blocked ex_blocked" by code_simp
  have c: "blocked_by_id ex_blocked = Some 1" by code_simp
  have d: "project_user_id ex_project = 1" by code_simp
  show ?thesis
    using a b c d can_be_edited_by_spec [of ex_version1 ex_project 3]
      can_be_edited_by_spec [of ex_blocked ex_project 1]
      can_be_edited_by_spec [of ex_blocked ex_project 2]
    by simp
qed

lemma find_map_update:
  assumes "\<And>x. f (g x) = f x"
  shows "find (\<lambda>x. f x = k) (map (\<lambda>x. if f x = k then g x else x) xs)
         = map_option g (find (\<lambda>x. f x = k) xs)"
  using assms by (induction xs) auto

lemma rv_id_toggle_version: "rv_id (toggle_version uid now v) = rv_id v"
  by (simp add: toggle_version_def)

text \<open>
  C4 (amended). For a version that is not blocked, \<open>can_be_blocked_by\<close> grants blocking
  to every user with access to the project, but the operation \<open>toggle_block_requirement\<close>
  is restricted to the project owner: any other user is refused, and for the owner the
  version becomes blocked by the owner at the current time.
\<close>

theorem block_permission:
  assumes "find (\<lambda>x. rv_id x = version_id) (versions s) = Some v"
    and "version_project s v = Inr p"
    and "\<not> is_blocked v"
  shows "(is_accessible_by p uid \<longrightarrow> can_be_blocked_by p v uid)
     \<and> (project_user_id p \<noteq> uid \<longrightarrow> toggle_block_requirement version_id uid now s = Inl Forbidden)
     \<and> (project_user_id p = uid \<longrightarrow>
          (\<exists>s'. toggle_block_requirement version_id uid now s = Inr s'
             \<and> find (\<lambda>x. rv_id x = version_id) (versions s')
                 = Some (v\<lparr>is_blocked := True, blocked_by_id := Some uid, blocked_at := Some now\<rparr>)))"
proof (intro conjI impI)
  assume "is_accessible_by p uid"
  with assms(3) show "can_be_blocked_by p v uid" by (simp add: can_be_blocked_by_def)
next
  assume "project_user_id p \<noteq> uid"
  with assms(1,2) show "toggle_block_requirement version_id uid now s = Inl Forbidden"
    by (simp add: toggle_block_requirement_def)
next
  assume owner: "project_user_id p = uid"
  let ?s' = "s\<lparr>versions := map (\<lambda>x. if rv_id x = version_id then toggle_version uid now x else x) (versions s)\<rparr>"
  have "toggle_block_requirement version_id uid now s = Inr ?s'"
    using assms(1,2) owner by (simp add: toggle_block_requirement_def)
  moreover have "find (\<lambda>x. rv_id x = version_id) (versions ?s')
                 = Some (v\<lparr>is_blocked := True, blocked_by_id := Some uid, blocked_at := Some now\<rparr>)"
    using assms(1,3) find_map_update [of rv_id "toggle_version uid now" version_id "versions s"]
    by (simp add: rv_id_toggle_version toggle_version_def)
  ultimately show "\<exists>s'. toggle_block_requirement version_id uid now s = Inr s'
             \<and> find (\<lambda>x. rv_id x = version_id) (versions s')
                 = Some (v\<lparr>is_blocked := True, blocked_by_id := Some uid, blocked_at := Some now\<rparr>)"
    by blast
qed

lemma ex_find_version1: "find (\<lambda>x. rv_id x = 1) (versions ex_store1) = Some ex_version1"
  by code_simp

lemma ex_version_project1: "version_project ex_store1 ex_version1 = Inr ex_project"
  by code_simp

theorem block_permission_witness:
  "is_accessible_by ex_project 2 \<and> can_be_blocked_by ex_project ex_version1 2
   \<and> toggle_block_requirement 1 2 7 ex_store1 = Inl Forbidden
   \<and> (\<exists>s'. toggle_block_requirement 1 1 7 ex_store1 = Inr s'
         \<and> find (\<lambda>x. rv_id x = 1) (versions s')
             = Some (ex_version1\<lparr>is_blocked := True, blocked_by_id := Some 1, blocked_at := Some 7\<rparr>))"
proof -
  have a: "\<not> is_blocked ex_version1" by code_simp
  have b: "is_accessible_by ex_project 2" by code_simp
  have c: "project_user_id ex_project = 1" by code_simp
  show ?thesis
    using b c block_permission [OF ex_find_version1 ex_version_project1 a, of 2 7]
      block_permission [OF ex_find_version1 ex_version_project1 a, of 1 7]
    by simp
qed

theorem block_permission_counterexample:
  "versions ex_store1 = [ex_version1] \<and> rv_id ex_version1 = 1
   \<and> \<not> is_blocked ex_version1
   \<and> version_project ex_store1 ex_version1 = Inr ex_project
   \<and> is_accessible_by ex_project 2
   \<and> toggle_block_requirement 1 2 7 ex_store1 = Inl Forbidden"
proof -
  have "\<not> is_blocked ex_version1" by code_simp
  moreover have "is_accessible_by ex_project 2" by code_simp
  moreover have "toggle_block_requirement 1 2 7 ex_store1 = Inl Forbidden" by code_simp
  moreover have "versions ex_store1 = [ex_version1]" by code_simp
  moreover have "rv_id ex_version1 = 1" by code_simp
  ultimately show ?thesis using ex_version_project1 by blast
qed





section \<open>Resolution of candidates: theorems\<close>










section \<open>Comment threads: theorems\<close>













section \<open>Notifications: evaluation\<close>

text \<open>
  C7. The code at the failing input. User 1 (the owner) comments
  \<open>"@bob @bob@x.com"\<close>: the two mentions are different texts, so \<open>parse_mentions\<close>
  keeps both, both resolve to user 2, and user 2 receives two \<open>mention\<close>
  notifications for the one comment (user 3 receives the \<open>comment\<close> notification).
\<close>

theorem duplicate_mention_notification:
  "parse_mentions (comment_text ex_mention_comment) = [''bob'', ''bob@x.com'']
   \<and> find_user_by_mention ''bob'' ex_project ex_store1 = Some ex_bob
   \<and> find_user_by_mention ''bob@x.com'' ex_project ex_store1 = Some ex_bob
   \<and> notify_comment_added ex_mention_comment ex_alice ex_store1 = Inr ex_notified
   \<and> count_list (notifications ex_notified) (create_notification 2 ''mention'' ''comment'' 5) = 2"
proof -
  have "parse_mentions (comment_text ex_mention_comment) = [''bob'', ''bob@x.com'']" by code_simp
  moreover have "find_user_by_mention ''bob'' ex_project ex_store1 = Some ex_bob" by code_simp
  moreover have "find_user_by_mention ''bob@x.com'' ex_project ex_store1 = Some ex_bob" by code_simp
  moreover have "notify_comment_added ex_mention_comment ex_alice ex_store1 = Inr ex_notified" by code_simp
  moreover have "count_list (notifications ex_notified) (create_notification 2 ''mention'' ''comment'' 5) = 2"
    by code_simp
  ultimately show ?thesis by blast
qed

section \<open>History of updates: theorems\<close>






lemma column_changes_keys:
  "fst ` set (column_changes v t d c ns)
     = (if title v \<noteq> t then {''title''} else {})
       \<union> (if description v \<noteq> d then {''description''} else {})
       \<union> (if (case category v of None \<Rightarrow> [] | Some x \<Rightarrow> x) \<noteq> c then {''category''} else {})
       \<union> (if status v \<noteq> ns then {''status''} else {})"
  by (auto simp: column_changes_def Let_def AList.dom_update)






















end
